theory Spec2Isabelle
  imports Complex_Main
begin

section \<open>Python values used by the validator\<close>

text \<open>
  The validator of \<^verbatim>\<open>mosaic_subnet/validator/__init__.py\<close> works on byte strings,
  text, floats and insertion-ordered dictionaries keyed by miner uid.  Scores, weights
  and clock readings are modelled as exact reals.  An exception is a value.  The
  first three constructors of \<open>exn\<close> are instances of Python's \<^verbatim>\<open>Exception\<close>
  class (\<open>Exception s\<close> stands for any other than the two named), which is what
  every \<^verbatim>\<open>except Exception\<close> of the source catches.  The last three derive from
  \<^verbatim>\<open>BaseException\<close> only (\<^verbatim>\<open>asyncio.CancelledError\<close>, \<^verbatim>\<open>KeyboardInterrupt\<close>,
  \<^verbatim>\<open>SystemExit\<close>): such a handler lets them pass.
\<close>

type_synonym bytes = string
type_synonym uid = int

datatype exn =
    ValueError string
  | TypeError string
  | Exception string
  | CancelledError
  | KeyboardInterrupt
  | SystemExit

fun is_Exception :: "exn \<Rightarrow> bool" where
  "is_Exception (ValueError s) = True"
| "is_Exception (TypeError s) = True"
| "is_Exception (Exception s) = True"
| "is_Exception CancelledError = False"
| "is_Exception KeyboardInterrupt = False"
| "is_Exception SystemExit = False"

text \<open>
  A \<^verbatim>\<open>dict\<close> keeps its keys in insertion order; assigning to a key that is present
  keeps the key's position.  The association list is read front to back.
\<close>

type_synonym 'v dict = "(uid \<times> 'v) list"

fun dict_set :: "'v dict \<Rightarrow> uid \<Rightarrow> 'v \<Rightarrow> 'v dict" where
  "dict_set [] k v = [(k, v)]"
| "dict_set ((k', v') # d) k v =
     (if k' = k then (k, v) # d else (k', v') # dict_set d k v)"

definition dict_keys :: "'v dict \<Rightarrow> uid list" where
  "dict_keys d = map fst d"

definition dict_values :: "'v dict \<Rightarrow> 'v list" where
  "dict_values d = map snd d"

text \<open>
  \<^verbatim>\<open>collections.deque(maxlen=m)\<close>: \<^verbatim>\<open>append\<close> adds on the right and, when the
  length then exceeds \<open>m\<close>, discards one item on the left.
\<close>

record 'a deque =
  maxlen :: "nat option"
  items :: "'a list"

definition deque_new :: "nat option \<Rightarrow> 'a deque" where
  "deque_new m = \<lparr>maxlen = m, items = []\<rparr>"

definition deque_append :: "'a deque \<Rightarrow> 'a \<Rightarrow> 'a deque" where
  "deque_append d x =
     (let ys = items d @ [x]
      in case maxlen d of
           None \<Rightarrow> d\<lparr>items := ys\<rparr>
         | Some m \<Rightarrow> d\<lparr>items := (if m < length ys then tl ys else ys)\<rparr>)"

section \<open>Settings and construction of the validator\<close>

text \<open>
  \<^verbatim>\<open>ValidatorSettings\<close> of \<^verbatim>\<open>validator/_config.py\<close>.  \<open>default_settings\<close> is the
  settings value that holds the defaults written in that file.
\<close>

record ValidatorSettings =
  use_testnet :: bool
  model :: string
  clip_model :: string
  api_url :: "string option"
  api_key :: "string option"
  host :: string
  port :: int
  iteration_interval :: int
  call_timeout :: int

definition default_settings :: ValidatorSettings where
  "default_settings =
     \<lparr>use_testnet = False, model = ''hps'',
      clip_model = ''laion/CLIP-ViT-L-14-laion2B-s32B-b82K'',
      api_url = None, api_key = None, host = ''0.0.0.0'', port = 8081,
      iteration_interval = 60, call_timeout = 30\<rparr>"

text \<open>
  The scorer backends.  \<^verbatim>\<open>APIValidator.__init__\<close> stores the url with trailing
  slashes removed (\<^verbatim>\<open>api_url.rstrip('/')\<close>).
\<close>

datatype scorer = CLIP string | APIValidator string "string option" | HPS

definition rstrip_slash :: "string \<Rightarrow> string" where
  "rstrip_slash s = rev (dropWhile (\<lambda>c. c = CHR ''/'') (rev s))"

definition APIValidator_init :: "string \<Rightarrow> string option \<Rightarrow> scorer" where
  "APIValidator_init url k = APIValidator (rstrip_slash url) k"

record WeightHistory =
  time :: nat
  data :: "(uid \<times> real \<times> real \<times> real \<times> real) list"

record Validator =
  settings :: ValidatorSettings
  key :: string
  netuid :: int
  scorer_model :: scorer
  timeout :: int
  weights_histories :: "WeightHistory deque"

text \<open>
  \<^verbatim>\<open>Validator.__init__\<close>.  \<open>get_netuid\<close> is the outcome of the ledger query of
  line 38, which runs before the backend is chosen.  Python's \<^verbatim>\<open>not api_url\<close> holds
  for \<^verbatim>\<open>None\<close> and for the empty string.  The field \<^verbatim>\<open>self.model\<close> is
  \<open>scorer_model\<close> and \<^verbatim>\<open>self.call_timeout\<close> is \<open>timeout\<close> here.  Loading a
  backend and the prompt dataset is outside the model: their constructors return.
\<close>

definition unset :: "string option \<Rightarrow> bool" where
  "unset s = (case s of None \<Rightarrow> True | Some t \<Rightarrow> t = [])"

definition select_model :: "ValidatorSettings \<Rightarrow> exn + scorer" where
  "select_model st =
     (if model st = ''clip'' then Inr (CLIP (clip_model st))
      else if model st = ''api'' then
        (case api_url st of
           None \<Rightarrow> Inl (ValueError ''API URL is required when using api model'')
         | Some url \<Rightarrow>
             if url = [] then Inl (ValueError ''API URL is required when using api model'')
             else Inr (APIValidator_init url (api_key st)))
      else Inr HPS)"

text \<open>
  \<^verbatim>\<open>settings or ValidatorSettings()\<close> (line 35).  The call without arguments is made
  only when no settings are passed.  \<^verbatim>\<open>ValidatorSettings\<close> is a \<^verbatim>\<open>@dataclass\<close> over a
  pydantic settings class, and what that call does is decided by those two libraries,
  not by this repository: \<open>ctor\<close> is its outcome.  (With pydantic 2 the annotated
  defaults are taken off the class before \<^verbatim>\<open>@dataclass\<close> reads it, every field becomes
  a required argument, and the call raises \<^verbatim>\<open>TypeError\<close>.)
\<close>

definition settings_or_default ::
  "(exn + ValidatorSettings) \<Rightarrow> ValidatorSettings option \<Rightarrow> exn + ValidatorSettings" where
  "settings_or_default ctor opt = (case opt of None \<Rightarrow> ctor | Some s \<Rightarrow> Inr s)"

definition Validator_init ::
  "(exn + ValidatorSettings) \<Rightarrow> (exn + int) \<Rightarrow> string \<Rightarrow> ValidatorSettings option \<Rightarrow>
   exn + Validator" where
  "Validator_init ctor get_netuid k opt =
     (case settings_or_default ctor opt of
        Inl e \<Rightarrow> Inl e
      | Inr st \<Rightarrow>
          (case get_netuid of
             Inl e \<Rightarrow> Inl e
           | Inr n \<Rightarrow>
               (case select_model st of
                  Inl e \<Rightarrow> Inl e
                | Inr m \<Rightarrow>
                    Inr \<lparr>settings = st, key = k, netuid = n, scorer_model = m,
                         timeout = call_timeout st,
                         weights_histories = deque_new (Some 10)\<rparr>)))"

section \<open>Scoring\<close>

text \<open>
  \<^verbatim>\<open>APIValidator.get_similarity\<close> (validator/api.py).  \<open>remote\<close> stands for lines
  32 to 46: decoding the image, the POST request, \<^verbatim>\<open>raise_for_status\<close> and the JSON
  decoding, which give the reply's dictionary or raise.  Lines 49 to 54 read the score.
\<close>

definition api_get_similarity ::
  "(bytes \<Rightarrow> string \<Rightarrow> exn + (string \<times> real) list) \<Rightarrow> bytes \<Rightarrow> string \<Rightarrow> exn + real" where
  "api_get_similarity remote file prompt =
     (case remote file prompt of
        Inl e \<Rightarrow> Inl e
      | Inr result \<Rightarrow>
          (case map_of result ''score'' of
             Some s \<Rightarrow> Inr s
           | None \<Rightarrow>
               (case map_of result ''similarity'' of
                  Some s \<Rightarrow> Inr s
                | None \<Rightarrow> Inl (ValueError ''Unexpected API response format''))))"

text \<open>
  \<^verbatim>\<open>Validator.calculate_score\<close>: the backend's value, or 0.0 when the backend raises
  something that \<^verbatim>\<open>except Exception\<close> catches; anything else goes on to the caller.
\<close>

definition calculate_score ::
  "(bytes \<Rightarrow> string \<Rightarrow> exn + real) \<Rightarrow> bytes \<Rightarrow> string \<Rightarrow> exn + real" where
  "calculate_score get_similarity img prompt =
     (case get_similarity img prompt of
        Inl e \<Rightarrow> if is_Exception e then Inr 0 else Inl e
      | Inr s \<Rightarrow> Inr s)"

section \<open>One validation round\<close>

text \<open>
  The collaborators of a round, as the outcomes of their calls in this round:
  the registry (\<^verbatim>\<open>get_queryable_miners\<close>, a dict from uid to the miner's address),
  the prompt dataset, the gathered miner calls (one answer and elapsed time per
  miner, in the order of the registry's dict), the scorer backend, the clock and the
  ledger client with its \<^verbatim>\<open>vote\<close> (lines 126 to 128).  A call that raises is
  \<open>Inl\<close>.
\<close>

record SampleInput =
  prompt :: string
  steps :: int

record round_env =
  get_queryable_miners :: "exn + string dict"
  random_prompt :: "exn + string"
  gather :: "exn + (bytes option \<times> real) list"
  get_similarity :: "bytes \<Rightarrow> string \<Rightarrow> exn + real"
  normalize_score :: "real dict \<Rightarrow> real dict \<Rightarrow> exn + real dict"
  now :: nat
  vote :: "uid list \<Rightarrow> real list \<Rightarrow> exn + unit"

text \<open>\<^verbatim>\<open>Validator.get_validate_input\<close>.\<close>

definition get_validate_input :: "round_env \<Rightarrow> exn + SampleInput" where
  "get_validate_input env =
     (case random_prompt env of
        Inl e \<Rightarrow> Inl e
      | Inr p \<Rightarrow> Inr \<lparr>prompt = p, steps = 4\<rparr>)"

text \<open>
  Modelled from the spec: \<^verbatim>\<open>weight_score\<close> of \<^verbatim>\<open>validator/utils.py\<close>, a file that
  is not among the sources.  The specification gives the weight of a uid as
  \<^verbatim>\<open>normalized_score / \<Sigma>normalized_score\<close>, over the uids of its input and no
  others; when the scores sum to zero every weight is zero.
\<close>

definition weight_score :: "real dict \<Rightarrow> real dict" where
  "weight_score normalized_scores =
     (let total = sum_list (dict_values normalized_scores)
      in map (\<lambda>(u, s). (u, if total = 0 then 0 else s / total)) normalized_scores)"

text \<open>
  Modelled from the spec: \<^verbatim>\<open>normalize_score\<close> of \<^verbatim>\<open>validator/utils.py\<close> is not
  among the sources either, and the specification leaves its formula open.  It is a
  parameter of the round (\<open>normalize_score env\<close>, which may raise).  The
  specification requires that a normalized score is never negative.
\<close>

definition normalized_nonneg :: "(exn + real dict) \<Rightarrow> bool" where
  "normalized_nonneg r =
     (case r of Inl e \<Rightarrow> True | Inr ns \<Rightarrow> list_all (\<lambda>s. 0 \<le> s) (dict_values ns))"

text \<open>
  Modelled from the spec: the other requirement on the absent \<^verbatim>\<open>normalize_score\<close>.
  Its result maps uids of its input \<^verbatim>\<open>score_dict\<close> to normalized scores.
\<close>

definition normalized_keys :: "real dict \<Rightarrow> (exn + real dict) \<Rightarrow> bool" where
  "normalized_keys score_dict r =
     (case r of
        Inl e \<Rightarrow> True
      | Inr ns \<Rightarrow> list_all (\<lambda>u. u \<in> set (dict_keys score_dict)) (dict_keys ns))"

text \<open>
  Lines 80 to 91 of \<^verbatim>\<open>validate_step\<close>: the loop over the miners and their answers.
  \<^verbatim>\<open>not miner_answer\<close> holds for \<^verbatim>\<open>None\<close> and for empty bytes.
\<close>

fun score_miners ::
  "(bytes \<Rightarrow> string \<Rightarrow> exn + real) \<Rightarrow> string \<Rightarrow> (uid \<times> bytes option \<times> real) list \<Rightarrow>
   real dict \<times> real dict \<Rightarrow> exn + real dict \<times> real dict" where
  "score_miners sim p [] (score_dict, duration_dict) = Inr (score_dict, duration_dict)"
| "score_miners sim p ((u, miner_answer, elapsed) # rest) (score_dict, duration_dict) =
     (case miner_answer of
        None \<Rightarrow> score_miners sim p rest (score_dict, duration_dict)
      | Some img \<Rightarrow>
          if img = [] then score_miners sim p rest (score_dict, duration_dict)
          else
            (case calculate_score sim img p of
               Inl e \<Rightarrow> Inl e
             | Inr score \<Rightarrow>
                 if score = 0 then score_miners sim p rest (score_dict, duration_dict)
                 else score_miners sim p rest
                        (dict_set score_dict u score, dict_set duration_dict u elapsed)))"

text \<open>Python's \<^verbatim>\<open>zip\<close> of five sequences stops with the shortest.\<close>

definition zip5 ::
  "'a list \<Rightarrow> 'b list \<Rightarrow> 'c list \<Rightarrow> 'd list \<Rightarrow> 'e list \<Rightarrow> ('a \<times> 'b \<times> 'c \<times> 'd \<times> 'e) list" where
  "zip5 as bs cs ds es = zip as (zip bs (zip cs (zip ds es)))"

text \<open>
  Lines 69 to 91 of \<^verbatim>\<open>validate_step\<close>: the registry, the sample input and the
  gathered miner calls, each of which may raise, and then the scoring loop.  The result
  is the round's \<^verbatim>\<open>score_dict\<close> and \<^verbatim>\<open>duration_dict\<close>, or the exception that
  ended the round.
\<close>

definition score_round :: "round_env \<Rightarrow> exn + real dict \<times> real dict" where
  "score_round env =
     (case get_queryable_miners env of
        Inl e \<Rightarrow> Inl e
      | Inr modules_info \<Rightarrow>
     (case get_validate_input env of
        Inl e \<Rightarrow> Inl e
      | Inr input \<Rightarrow>
     (case gather env of
        Inl e \<Rightarrow> Inl e
      | Inr miner_answers \<Rightarrow>
          score_miners (get_similarity env) (prompt input)
            (zip (dict_keys modules_info) miner_answers) ([], []))))"

text \<open>
  What a call of \<^verbatim>\<open>validate_step\<close> leaves behind: the validator's state, the record
  it appended to the history (if any), the calls of \<^verbatim>\<open>vote\<close> it made, the error it
  logged for a failed vote (line 130), and the exception it raised (if any).
\<close>

record step_outcome =
  state :: Validator
  appended :: "WeightHistory option"
  votes :: "(uid list \<times> real list) list"
  logged :: "exn list"
  raised :: "exn option"

definition raise :: "Validator \<Rightarrow> exn \<Rightarrow> step_outcome" where
  "raise v e = \<lparr>state = v, appended = None, votes = [], logged = [], raised = Some e\<rparr>"

text \<open>\<^verbatim>\<open>validate_step\<close>: the scoring of lines 69 to 91, then lines 93 to 130.\<close>

definition validate_step :: "round_env \<Rightarrow> Validator \<Rightarrow> step_outcome" where
  "validate_step env v =
     (case score_round env of
        Inl e \<Rightarrow> raise v e
      | Inr (score_dict, duration_dict) \<Rightarrow>
     if score_dict = [] then
       \<lparr>state = v, appended = None, votes = [], logged = [], raised = None\<rparr>
     else
     (case normalize_score env score_dict duration_dict of
        Inl e \<Rightarrow> raise v e
      | Inr normalized_scores \<Rightarrow>
          let weighted_scores = weight_score normalized_scores;
              weight_data = zip5 (dict_keys weighted_scores) (dict_values score_dict)
                              (dict_values duration_dict) (dict_values normalized_scores)
                              (dict_values weighted_scores);
              h = \<lparr>time = now env, data = weight_data\<rparr>;
              v' = v\<lparr>weights_histories := deque_append (weights_histories v) h\<rparr>;
              weighted_scores' = filter (\<lambda>(k, w). 0 < w) weighted_scores
          in if weighted_scores' = [] then
               \<lparr>state = v', appended = Some h, votes = [], logged = [], raised = None\<rparr>
             else
               let uids = dict_keys weighted_scores';
                   weights = dict_values weighted_scores'
               in (case vote env uids weights of
                     Inl e \<Rightarrow>
                       if is_Exception e then
                         \<lparr>state = v', appended = Some h, votes = [(uids, weights)],
                          logged = [e], raised = None\<rparr>
                       else
                         \<lparr>state = v', appended = Some h, votes = [(uids, weights)],
                          logged = [], raised = Some e\<rparr>
                   | Inr _ \<Rightarrow>
                       \<lparr>state = v', appended = Some h, votes = [(uids, weights)],
                        logged = [], raised = None\<rparr>)))"

section \<open>The validation loop\<close>

text \<open>
  One pass of the body of \<^verbatim>\<open>validation_loop\<close>: the round, the two readings of
  \<^verbatim>\<open>time.time()\<close> around it, and either the sleep or the printed traceback.  The
  handler is \<^verbatim>\<open>except Exception\<close>: an exception it does not catch leaves the pass,
  and with it the loop (\<open>propagated\<close>).
\<close>

record iteration_env =
  round :: round_env
  start_time :: real
  end_time :: real

datatype loop_event =
    RunValidateStep
  | Recorded WeightHistory
  | Voted "uid list" "real list"
  | Slept real
  | TracebackPrinted exn

record loop_outcome =
  after :: Validator
  events :: "loop_event list"
  propagated :: "exn option"

definition loop_iteration ::
  "ValidatorSettings \<Rightarrow> iteration_env \<Rightarrow> Validator \<Rightarrow> loop_outcome" where
  "loop_iteration st ie v =
     (let out = validate_step (round ie) v;
          evs = RunValidateStep
                # (case appended out of None \<Rightarrow> [] | Some h \<Rightarrow> [Recorded h])
                @ map (\<lambda>(us, ws). Voted us ws) (votes out)
      in case raised out of
           Some e \<Rightarrow>
             if is_Exception e then
               \<lparr>after = state out, events = evs @ [TracebackPrinted e], propagated = None\<rparr>
             else \<lparr>after = state out, events = evs, propagated = Some e\<rparr>
         | None \<Rightarrow>
             let elapsed = end_time ie - start_time ie
             in if elapsed < real_of_int (iteration_interval st) then
                  let sleep_time = real_of_int (iteration_interval st) - elapsed
                  in \<lparr>after = state out, events = evs @ [Slept sleep_time],
                      propagated = None\<rparr>
                else \<lparr>after = state out, events = evs, propagated = None\<rparr>)"

text \<open>
  \<^verbatim>\<open>while True\<close>: the loop has no exit of its own.  It ends only when a pass lets an
  exception through, and its value is then the validator as that pass left it and the
  exception; a loop that runs forever has no value.  The environments of the
  successive passes are \<open>envs i\<close>, \<open>envs (i + 1)\<close>, and so on.
\<close>

partial_function (option) validation_loop ::
  "ValidatorSettings \<Rightarrow> (nat \<Rightarrow> iteration_env) \<Rightarrow> nat \<Rightarrow> Validator \<Rightarrow>
   (Validator \<times> exn) option" where
  "validation_loop st envs i v =
     (let r = loop_iteration st (envs i) v
      in case propagated r of
           Some e \<Rightarrow> Some (after r, e)
         | None \<Rightarrow> validation_loop st envs (Suc i) (after r))"

text \<open>
  At most \<open>n\<close> passes of the loop from pass \<open>i\<close>, with the events they produce; the
  run stops early at a pass that lets an exception through.
\<close>

fun run_loop ::
  "nat \<Rightarrow> ValidatorSettings \<Rightarrow> (nat \<Rightarrow> iteration_env) \<Rightarrow> nat \<Rightarrow> Validator \<Rightarrow> loop_outcome" where
  "run_loop 0 st envs i v = \<lparr>after = v, events = [], propagated = None\<rparr>"
| "run_loop (Suc n) st envs i v =
     (let r = loop_iteration st (envs i) v
      in case propagated r of
           Some e \<Rightarrow> r
         | None \<Rightarrow>
             (let r' = run_loop n st envs (Suc i) (after r)
              in r'\<lparr>events := events r @ events r'\<rparr>))"

text \<open>Readings of a list of events: the history records appended, in order, and so on.\<close>

fun recorded :: "loop_event list \<Rightarrow> WeightHistory list" where
  "recorded [] = []"
| "recorded (Recorded h # evs) = h # recorded evs"
| "recorded (ev # evs) = recorded evs"

definition rounds_run :: "loop_event list \<Rightarrow> nat" where
  "rounds_run evs = length (filter (\<lambda>ev. ev = RunValidateStep) evs)"

definition slept :: "loop_event \<Rightarrow> real" where
  "slept ev = (case ev of Slept t \<Rightarrow> t | _ \<Rightarrow> 0)"

definition is_traceback :: "loop_event \<Rightarrow> bool" where
  "is_traceback ev = (case ev of TracebackPrinted e \<Rightarrow> True | _ \<Rightarrow> False)"

section \<open>A concrete validator and concrete rounds\<close>

text \<open>
  Three registered miners: two answer, the third times out.  The backend scores the
  answers 80 and 40, the normalizer scales by 80, and every pass of the loop takes 45
  seconds.  \<open>demo_validator\<close> is what the constructor builds from \<open>default_settings\<close>.
\<close>

definition demo_round :: round_env where
  "demo_round =
     \<lparr>get_queryable_miners = Inr [(1, ''10.0.0.1:8080''), (2, ''10.0.0.2:8080''), (3, ''10.0.0.3:8080'')],
      random_prompt = Inr ''a cat'',
      gather = Inr [(Some ''png1'', 1), (Some ''png2'', 1 / 2), (None, 30)],
      get_similarity = (\<lambda>img p. if img = ''png1'' then Inr 80 else Inr 40),
      normalize_score = (\<lambda>sd dd. Inr (map (\<lambda>(u, s). (u, s / 80)) sd)),
      now = 0,
      vote = (\<lambda>us ws. Inr ())\<rparr>"

definition demo_envs :: "nat \<Rightarrow> iteration_env" where
  "demo_envs i = \<lparr>round = demo_round\<lparr>now := i\<rparr>, start_time = 100 * real i, end_time = 100 * real i + 45\<rparr>"

definition demo_validator :: Validator where
  "demo_validator =
     \<lparr>settings = default_settings, key = ''mosaic-validator0'', netuid = 14,
      scorer_model = HPS, timeout = 30, weights_histories = deque_new (Some 10)\<rparr>"

text \<open>Replies of a remote scoring endpoint, for \<open>api_get_similarity\<close>.\<close>

fun reply_negative :: "bytes \<Rightarrow> string \<Rightarrow> exn + (string \<times> real) list" where
  "reply_negative file p = Inr [(''score'', - 1)]"

fun reply_similarity :: "bytes \<Rightarrow> string \<Rightarrow> exn + (string \<times> real) list" where
  "reply_similarity file p = Inr [(''similarity'', 3 / 4)]"

fun reply_unavailable :: "bytes \<Rightarrow> string \<Rightarrow> exn + (string \<times> real) list" where
  "reply_unavailable file p = Inl (Exception ''503 Service Unavailable'')"

text \<open>
  A pass that takes 75 seconds, passes whose round fails at the registry, and passes
  whose gathered miner calls are cancelled.
\<close>

definition demo_slow :: iteration_env where
  "demo_slow = \<lparr>round = demo_round, start_time = 0, end_time = 75\<rparr>"

definition failing_round :: round_env where
  "failing_round = demo_round\<lparr>get_queryable_miners := Inl (Exception ''registry unreachable'')\<rparr>"

definition failing_envs :: "nat \<Rightarrow> iteration_env" where
  "failing_envs i = \<lparr>round = failing_round, start_time = real i, end_time = real i + 1\<rparr>"

definition cancelled_round :: round_env where
  "cancelled_round = demo_round\<lparr>gather := Inl CancelledError\<rparr>"

definition cancelled_envs :: "nat \<Rightarrow> iteration_env" where
  "cancelled_envs i = \<lparr>round = cancelled_round, start_time = real i, end_time = real i + 1\<rparr>"

text \<open>
  Rounds in which every miner times out, in which the backend fails on the second
  miner's image, and in which the ledger rejects the vote.
\<close>

definition silent_round :: round_env where
  "silent_round = demo_round\<lparr>gather := Inr [(None, 30), (None, 30), (None, 30)]\<rparr>"



fun vote_rejected :: "uid list \<Rightarrow> real list \<Rightarrow> exn + unit" where
  "vote_rejected us ws = Inl (Exception ''ledger unreachable'')"

definition ledger_down_round :: round_env where
  "ledger_down_round = demo_round\<lparr>vote := vote_rejected\<rparr>"

definition ledger_down_envs :: "nat \<Rightarrow> iteration_env" where
  "ledger_down_envs i = \<lparr>round = ledger_down_round, start_time = 0, end_time = 45\<rparr>"

section \<open>Properties of the model\<close>

subsection \<open>The bounded deque\<close>

lemma deque_append_maxlen: "maxlen (deque_append d x) = maxlen d"
  by (simp add: deque_append_def Let_def split: option.splits)

lemma deque_append_length:
  "maxlen d = Some m \<Longrightarrow> length (items d) \<le> m \<Longrightarrow> length (items (deque_append d x)) \<le> m"
  by (simp add: deque_append_def Let_def)

lemma deque_append_items_Some:
  "maxlen d = Some m \<Longrightarrow> length (items d) \<le> m \<Longrightarrow>
   items (deque_append d x) = drop (Suc (length (items d)) - m) (items d @ [x])"
proof (cases "length (items d) = m")
  case True
  assume "maxlen d = Some m"
  then show ?thesis using True by (cases "items d") (simp_all add: deque_append_def Let_def)
next
  case False
  assume "maxlen d = Some m" "length (items d) \<le> m"
  then show ?thesis using False by (simp add: deque_append_def Let_def)
qed

lemma deque_append_last: "maxlen d = Some (Suc m) \<Longrightarrow> last (items (deque_append d x)) = x"
  by (cases "items d") (simp_all add: deque_append_def Let_def)

lemma foldl_deque_append_items:
  "maxlen d = Some m \<Longrightarrow> length (items d) \<le> m \<Longrightarrow>
   items (foldl deque_append d rs) = drop (length (items d) + length rs - m) (items d @ rs)
   \<and> length (items (foldl deque_append d rs)) \<le> m"
proof (induction rs arbitrary: d)
  case Nil
  then show ?case by simp
next
  case (Cons r rs)
  let ?d = "deque_append d r"
  have m: "maxlen ?d = Some m" using Cons.prems by (simp add: deque_append_maxlen)
  have l: "length (items ?d) \<le> m" using Cons.prems by (rule deque_append_length)
  have it: "items ?d = drop (Suc (length (items d)) - m) (items d @ [r])"
    using Cons.prems by (rule deque_append_items_Some)
  have len: "length (items ?d) = min (Suc (length (items d))) m"
    using Cons.prems(2) by (simp add: it)
  have "items (foldl deque_append ?d rs) =
          drop (length (items ?d) + length rs - m) (items ?d @ rs)"
    using Cons.IH[OF m l] by simp
  also have "\<dots> = drop (length (items d) + length (r # rs) - m) (items d @ r # rs)"
  proof (cases "length (items d) = m")
    case True
    then show ?thesis using it len by (cases "items d") simp_all
  next
    case False
    then have "length (items d) < m" using Cons.prems(2) by simp
    then show ?thesis using it len by simp
  qed
  finally show ?case using Cons.IH[OF m l] by simp
qed

subsection \<open>Effects of a round on the state\<close>

lemma validate_step_state:
  "state (validate_step env v) =
     (case appended (validate_step env v) of
        None \<Rightarrow> v
      | Some h \<Rightarrow> v\<lparr>weights_histories := deque_append (weights_histories v) h\<rparr>)"
  by (simp add: validate_step_def raise_def Let_def split: sum.splits prod.splits)

lemma validate_step_history:
  "weights_histories (state (validate_step env v)) =
     foldl deque_append (weights_histories v)
       (case appended (validate_step env v) of None \<Rightarrow> [] | Some h \<Rightarrow> [h])"
  by (subst validate_step_state) (simp split: option.splits)

lemma recorded_append: "recorded (xs @ ys) = recorded xs @ recorded ys"
  by (induction xs rule: recorded.induct) simp_all

lemma recorded_Voted: "recorded (map (\<lambda>(us, ws). Voted us ws) xs) = []"
  by (induction xs) (simp_all split: prod.splits)

lemma loop_iteration_state:
  "after (loop_iteration st ie v) = state (validate_step (round ie) v)"
  by (simp add: loop_iteration_def Let_def split: option.splits)

lemma loop_iteration_recorded:
  "recorded (events (loop_iteration st ie v)) =
     (case appended (validate_step (round ie) v) of None \<Rightarrow> [] | Some h \<Rightarrow> [h])"
  by (simp add: loop_iteration_def Let_def recorded_append recorded_Voted split: option.splits)

lemma loop_iteration_propagated:
  "propagated (loop_iteration st ie v) =
     (case raised (validate_step (round ie) v) of
        None \<Rightarrow> None
      | Some e \<Rightarrow> if is_Exception e then None else Some e)"
  by (simp add: loop_iteration_def Let_def split: option.splits)

lemma rounds_run_append: "rounds_run (xs @ ys) = rounds_run xs + rounds_run ys"
  by (simp add: rounds_run_def)

lemma rounds_run_Voted: "rounds_run (map (\<lambda>(us, ws). Voted us ws) xs) = 0"
  by (induction xs) (simp_all add: rounds_run_def split: prod.splits)

lemma rounds_run_Cons:
  "rounds_run (ev # evs) = (if ev = RunValidateStep then 1 else 0) + rounds_run evs"
  by (simp add: rounds_run_def)

lemma rounds_run_Nil: "rounds_run [] = 0"
  by (simp add: rounds_run_def)

lemma loop_iteration_rounds_run: "rounds_run (events (loop_iteration st ie v)) = 1"
  by (simp add: loop_iteration_def Let_def rounds_run_append rounds_run_Voted
        rounds_run_Cons rounds_run_Nil split: option.splits)

lemma run_loop_Suc_stop:
  "propagated (loop_iteration st (envs i) v) = Some e \<Longrightarrow>
   run_loop (Suc n) st envs i v = loop_iteration st (envs i) v"
  by (simp add: Let_def)

lemma run_loop_Suc_go:
  "propagated (loop_iteration st (envs i) v) = None \<Longrightarrow>
   run_loop (Suc n) st envs i v =
     (run_loop n st envs (Suc i) (state (validate_step (round (envs i)) v)))
       \<lparr>events := events (loop_iteration st (envs i) v)
          @ events (run_loop n st envs (Suc i) (state (validate_step (round (envs i)) v)))\<rparr>"
  by (simp add: Let_def loop_iteration_state)

lemma run_loop_history:
  "weights_histories (after (run_loop n st envs i v)) =
     foldl deque_append (weights_histories v) (recorded (events (run_loop n st envs i v)))"
proof (induction n arbitrary: i v)
  case 0
  show ?case by simp
next
  case (Suc n)
  let ?r = "loop_iteration st (envs i) v"
  let ?v' = "state (validate_step (round (envs i)) v)"
  have one: "weights_histories ?v' = foldl deque_append (weights_histories v) (recorded (events ?r))"
    unfolding loop_iteration_recorded by (rule validate_step_history)
  show ?case
  proof (cases "propagated ?r")
    case None
    show ?thesis
      unfolding run_loop_Suc_go[where envs = envs and i = i, OF None] using Suc.IH[of "Suc i" ?v'] one
      by (simp add: recorded_append)
  next
    case (Some e)
    show ?thesis
      unfolding run_loop_Suc_stop[where envs = envs and i = i, OF Some] using one by (simp add: loop_iteration_state)
  qed
qed

lemma run_loop_rounds_run:
  "propagated (run_loop n st envs i v) = None \<Longrightarrow>
   rounds_run (events (run_loop n st envs i v)) = n"
proof (induction n arbitrary: i v)
  case 0
  show ?case by (simp add: rounds_run_def)
next
  case (Suc n)
  let ?r = "loop_iteration st (envs i) v"
  let ?v' = "state (validate_step (round (envs i)) v)"
  show ?case
  proof (cases "propagated ?r")
    case None
    have "propagated (run_loop n st envs (Suc i) ?v') = None"
      using Suc.prems unfolding run_loop_Suc_go[where envs = envs and i = i, OF None] by simp
    then show ?thesis
      unfolding run_loop_Suc_go[where envs = envs and i = i, OF None] using Suc.IH[of "Suc i" ?v']
      by (simp add: rounds_run_append loop_iteration_rounds_run)
  next
    case (Some e)
    then show ?thesis using Suc.prems unfolding run_loop_Suc_stop[where envs = envs and i = i, OF Some] by simp
  qed
qed

lemma Validator_init_history:
  "Validator_init ctor g k opt = Inr v \<Longrightarrow> weights_histories v = deque_new (Some 10)"
  by (auto simp: Validator_init_def Let_def split: sum.splits)

section \<open>The claims\<close>

text \<open>
  C6.  The round history never holds more than 10 records: for a validator as
  constructed by \<^verbatim>\<open>__init__\<close>, after any number of passes of the validation loop
  the history has at most 10 items, and they are the last 10 records appended, in the
  order of their appends; so after 11 appends the first record is gone and the other
  ten are present in order.
\<close>

theorem history_bounded_fifo:
  assumes "Validator_init ctor g k opt = Inr v0"
    and "run_loop n st envs i v0 = \<lparr>after = v, events = evs, propagated = x\<rparr>"
  shows "length (items (weights_histories v)) \<le> 10
       \<and> items (weights_histories v) = drop (length (recorded evs) - 10) (recorded evs)
       \<and> (length (recorded evs) = 11 \<longrightarrow> items (weights_histories v) = tl (recorded evs))"
proof -
  have h0: "weights_histories v0 = deque_new (Some 10)"
    using assms(1) by (rule Validator_init_history)
  have "weights_histories v = foldl deque_append (deque_new (Some 10)) (recorded evs)"
    using run_loop_history[of n st envs i v0] assms(2) h0 by simp
  moreover have "items (foldl deque_append (deque_new (Some 10)) rs)
        = drop (length rs - 10) rs
      \<and> length (items (foldl deque_append (deque_new (Some 10) :: WeightHistory deque) rs)) \<le> 10"
    for rs :: "WeightHistory list"
    using foldl_deque_append_items[of "deque_new (Some 10)" 10 rs]
    by (simp add: deque_new_def)
  ultimately show ?thesis by (simp add: drop_Suc)
qed

theorem history_bounded_fifo_witness:
  "Validator_init (Inl (TypeError ''missing required arguments'')) (Inr 14)
       ''mosaic-validator0'' (Some default_settings) = Inr demo_validator
   \<and> propagated (run_loop 11 default_settings demo_envs 0 demo_validator) = None
   \<and> length (recorded (events (run_loop 11 default_settings demo_envs 0 demo_validator))) = 11
   \<and> length (items (weights_histories
         (after (run_loop 11 default_settings demo_envs 0 demo_validator)))) \<le> 10
   \<and> items (weights_histories (after (run_loop 11 default_settings demo_envs 0 demo_validator)))
       = tl (recorded (events (run_loop 11 default_settings demo_envs 0 demo_validator)))"
proof -
  have a: "Validator_init (Inl (TypeError ''missing required arguments'')) (Inr 14)
       ''mosaic-validator0'' (Some default_settings) = Inr demo_validator"
    by (simp add: Validator_init_def settings_or_default_def demo_validator_def
          select_model_def default_settings_def)
  have c: "length (recorded (events (run_loop 11 default_settings demo_envs 0 demo_validator))) = 11"
    by code_simp
  have p: "propagated (run_loop 11 default_settings demo_envs 0 demo_validator) = None"
    by code_simp
  define r where "r = run_loop 11 default_settings demo_envs 0 demo_validator"
  have b: "run_loop 11 default_settings demo_envs 0 demo_validator
             = \<lparr>after = after r, events = events r, propagated = propagated r\<rparr>"
    by (simp add: r_def)
  from history_bounded_fifo[OF a b] a c p show ?thesis
    unfolding r_def by blast
qed

text \<open>
  C10.  Constructing a validator whose settings have \<^verbatim>\<open>model == "api"\<close> and an
  unset \<^verbatim>\<open>api_url\<close> (\<^verbatim>\<open>None\<close> or empty) raises the \<^verbatim>\<open>ValueError\<close>, so no
  validator exists to run a round; with any other settings the constructor returns a
  validator whose backend is CLIP for \<^verbatim>\<open>"clip"\<close>, the API scorer for \<^verbatim>\<open>"api"\<close>
  and HPS for every other value.  The ledger query that precedes the check is
  assumed to return.
\<close>

theorem init_requires_api_url:
  assumes "get_netuid = Inr n" and "settings_or_default ctor opt = Inr st"
  shows "(model st = ''api'' \<and> unset (api_url st) \<longrightarrow>
            Validator_init ctor get_netuid k opt
              = Inl (ValueError ''API URL is required when using api model''))
       \<and> (\<not> (model st = ''api'' \<and> unset (api_url st)) \<longrightarrow>
            (\<exists>v. Validator_init ctor get_netuid k opt = Inr v
                 \<and> scorer_model v =
                     (if model st = ''clip'' then CLIP (clip_model st)
                      else if model st = ''api''
                        then APIValidator_init (the (api_url st)) (api_key st)
                      else HPS)))"
  using assms
  by (auto simp: Validator_init_def select_model_def unset_def Let_def
           split: option.splits)

theorem init_requires_api_url_witness:
  "Validator_init (Inl (TypeError ''missing required arguments'')) (Inr 14) ''k''
       (Some (default_settings\<lparr>model := ''api'', api_url := Some []\<rparr>))
     = Inl (ValueError ''API URL is required when using api model'')
   \<and> Validator_init (Inl (TypeError ''missing required arguments'')) (Inr 14) ''k''
       (Some (default_settings\<lparr>model := ''api''\<rparr>))
     = Inl (ValueError ''API URL is required when using api model'')
   \<and> (\<exists>v. Validator_init (Inl (TypeError ''missing required arguments'')) (Inr 14) ''k''
              (Some (default_settings\<lparr>model := ''api'', api_url := Some ''http://scorer/''\<rparr>)) = Inr v
          \<and> scorer_model v = APIValidator ''http://scorer'' None)
   \<and> (\<exists>v. Validator_init (Inl (TypeError ''missing required arguments'')) (Inr 14) ''k''
              (Some (default_settings\<lparr>model := ''resnet''\<rparr>)) = Inr v
          \<and> scorer_model v = HPS)"
proof -
  let ?ctor = "Inl (TypeError ''missing required arguments'') :: exn + ValidatorSettings"
  have n: "(Inr 14 :: exn + int) = Inr 14" by simp
  have s: "settings_or_default ?ctor (Some x) = Inr x" for x
    by (simp add: settings_or_default_def)
  show ?thesis
    using init_requires_api_url[OF n s, of "default_settings\<lparr>model := ''api'', api_url := Some []\<rparr>" "''k''"]
      init_requires_api_url[OF n s, of "default_settings\<lparr>model := ''api''\<rparr>" "''k''"]
      init_requires_api_url[OF n s, of "default_settings\<lparr>model := ''api'', api_url := Some ''http://scorer/''\<rparr>" "''k''"]
      init_requires_api_url[OF n s, of "default_settings\<lparr>model := ''resnet''\<rparr>" "''k''"]
    by (simp add: default_settings_def unset_def APIValidator_init_def rstrip_slash_def)
qed

subsection \<open>Dictionaries and the scoring loop\<close>

lemma dict_set_entries: "set (dict_set d k x) \<subseteq> insert (k, x) (set d)"
  by (induction d k x rule: dict_set.induct) auto

lemma dict_set_new: "(k, x) \<in> set (dict_set d k x)"
  by (induction d k x rule: dict_set.induct) auto

lemma dict_set_other: "k \<noteq> u \<Longrightarrow> (u, s) \<in> set d \<Longrightarrow> (u, s) \<in> set (dict_set d k x)"
  by (induction d k x rule: dict_set.induct) auto

lemma calculate_score_Inr:
  "calculate_score sim img p = Inr s \<Longrightarrow> s \<noteq> 0 \<Longrightarrow> sim img p = Inr s"
  by (auto simp: calculate_score_def split: sum.splits if_splits)

text \<open>The three ways the scoring loop treats a miner.\<close>

lemma score_miners_skip:
  "a = None \<or> a = Some [] \<or> (\<exists>img. a = Some img \<and> calculate_score sim img p = Inr 0) \<Longrightarrow>
   score_miners sim p ((u, a, el) # ms) (sd, dd) = score_miners sim p ms (sd, dd)"
  by auto

lemma score_miners_cases:
  obtains (skip) "a = None \<or> a = Some [] \<or> (\<exists>img. a = Some img \<and> calculate_score sim img p = Inr 0)"
  | (take) img s where "a = Some img" "img \<noteq> []" "calculate_score sim img p = Inr s" "s \<noteq> 0"
  | (raise) img e where "a = Some img" "img \<noteq> []" "calculate_score sim img p = Inl e"
proof (cases a)
  case None
  then show ?thesis using skip by simp
next
  case (Some img)
  show ?thesis
  proof (cases "img = []")
    case True
    then show ?thesis using skip Some by simp
  next
    case False
    show ?thesis
    proof (cases "calculate_score sim img p")
      case (Inl e)
      then show ?thesis using raise Some False by simp
    next
      case (Inr s)
      then show ?thesis using skip take Some False by (cases "s = 0") auto
    qed
  qed
qed

lemma score_miners_entries:
  "score_miners sim p ms (sd, dd) = Inr (sd', dd') \<Longrightarrow> (u, s) \<in> set sd' \<Longrightarrow>
   (u, s) \<in> set sd
   \<or> (s \<noteq> 0 \<and> (\<exists>img el. (u, Some img, el) \<in> set ms \<and> img \<noteq> []
                    \<and> calculate_score sim img p = Inr s))"
proof (induction ms arbitrary: sd dd)
  case Nil
  then show ?case by simp
next
  case (Cons m ms)
  obtain w a el where m: "m = (w, a, el)" by (cases m)
  show ?case
  proof (cases rule: score_miners_cases[of a sim p])
    case skip
    then have "score_miners sim p ms (sd, dd) = Inr (sd', dd')"
      using Cons.prems(1) unfolding m by (simp add: score_miners_skip del: score_miners.simps)
    from Cons.IH[OF this Cons.prems(2)] show ?thesis by auto
  next
    case (take img x)
    then have "score_miners sim p ms (dict_set sd w x, dict_set dd w el) = Inr (sd', dd')"
      using Cons.prems(1) unfolding m by simp
    from Cons.IH[OF this Cons.prems(2)] show ?thesis
      using dict_set_entries[of sd w x] take m by auto
  next
    case (raise img e)
    then show ?thesis using Cons.prems(1) unfolding m by simp
  qed
qed

lemma score_miners_keeps:
  "score_miners sim p ms (sd, dd) = Inr (sd', dd') \<Longrightarrow> u \<notin> fst ` set ms \<Longrightarrow>
   ((u, s) \<in> set sd \<longrightarrow> (u, s) \<in> set sd') \<and> ((u, t) \<in> set dd \<longrightarrow> (u, t) \<in> set dd')"
proof (induction ms arbitrary: sd dd)
  case Nil
  then show ?case by simp
next
  case (Cons m ms)
  obtain w a el where m: "m = (w, a, el)" by (cases m)
  have w: "w \<noteq> u" and rest: "u \<notin> fst ` set ms" using Cons.prems(2) m by auto
  show ?case
  proof (cases rule: score_miners_cases[of a sim p])
    case skip
    then have "score_miners sim p ms (sd, dd) = Inr (sd', dd')"
      using Cons.prems(1) unfolding m by (simp add: score_miners_skip del: score_miners.simps)
    from Cons.IH[OF this rest] show ?thesis .
  next
    case (take img x)
    then have "score_miners sim p ms (dict_set sd w x, dict_set dd w el) = Inr (sd', dd')"
      using Cons.prems(1) unfolding m by simp
    from Cons.IH[OF this rest] show ?thesis
      using dict_set_other[OF w, of s sd x] dict_set_other[OF w, of t dd el] by blast
  next
    case (raise img e)
    then show ?thesis using Cons.prems(1) unfolding m by simp
  qed
qed

lemma score_miners_records:
  "score_miners sim p ms (sd, dd) = Inr (sd', dd') \<Longrightarrow> distinct (map fst ms) \<Longrightarrow>
   (u, Some img, el) \<in> set ms \<Longrightarrow> img \<noteq> [] \<Longrightarrow> calculate_score sim img p = Inr s \<Longrightarrow>
   s \<noteq> 0 \<Longrightarrow> (u, s) \<in> set sd' \<and> (u, el) \<in> set dd'"
proof (induction ms arbitrary: sd dd)
  case Nil
  then show ?case by simp
next
  case (Cons m ms)
  obtain w a t where m: "m = (w, a, t)" by (cases m)
  have d: "distinct (map fst ms)" and fresh: "w \<notin> fst ` set ms"
    using Cons.prems(2) m by auto
  show ?case
  proof (cases "(u, Some img, el) = m")
    case True
    then have eq: "w = u" "a = Some img" "t = el" using m by auto
    have "score_miners sim p ms (dict_set sd u s, dict_set dd u el) = Inr (sd', dd')"
      using Cons.prems(1,4,5,6) unfolding m eq by simp
    from score_miners_keeps[OF this, of u s el] fresh show ?thesis
      unfolding eq by (simp add: dict_set_new)
  next
    case False
    then have mem: "(u, Some img, el) \<in> set ms" using Cons.prems(3) by auto
    show ?thesis
    proof (cases rule: score_miners_cases[of a sim p])
      case skip
      then have "score_miners sim p ms (sd, dd) = Inr (sd', dd')"
        using Cons.prems(1) unfolding m by (simp add: score_miners_skip del: score_miners.simps)
      from Cons.IH[OF this d mem Cons.prems(4,5,6)] show ?thesis .
    next
      case (take img' x)
      then have "score_miners sim p ms (dict_set sd w x, dict_set dd w t) = Inr (sd', dd')"
        using Cons.prems(1) unfolding m by simp
      from Cons.IH[OF this d mem Cons.prems(4,5,6)] show ?thesis .
    next
      case (raise img' e)
      then show ?thesis using Cons.prems(1) unfolding m by simp
    qed
  qed
qed


lemma zip5_keys: "row \<in> set (zip5 as bs cs ds es) \<Longrightarrow> fst row \<in> set as"
  by (cases row) (auto simp: zip5_def dest: set_zip_leftD)

lemma zip5_second: "row \<in> set (zip5 as bs cs ds es) \<Longrightarrow> fst (snd row) \<in> set bs"
  by (cases row) (auto simp: zip5_def dest: set_zip_leftD set_zip_rightD)

subsection \<open>What a round did, read from its outcome\<close>

lemma validate_step_appendedD:
  "appended (validate_step env v) = Some h \<Longrightarrow>
   \<exists>sd dd ns. score_round env = Inr (sd, dd) \<and> sd \<noteq> []
     \<and> normalize_score env sd dd = Inr ns
     \<and> h = \<lparr>time = now env,
            data = zip5 (dict_keys (weight_score ns)) (dict_values sd) (dict_values dd)
                     (dict_values ns) (dict_values (weight_score ns))\<rparr>"
  by (auto simp: validate_step_def raise_def Let_def split: sum.splits prod.splits if_splits)

lemma validate_step_votesD:
  "(uids, ws) \<in> set (votes (validate_step env v)) \<Longrightarrow>
   \<exists>sd dd ns. score_round env = Inr (sd, dd) \<and> sd \<noteq> []
     \<and> normalize_score env sd dd = Inr ns
     \<and> uids = dict_keys (filter (\<lambda>(k, w). 0 < w) (weight_score ns))
     \<and> ws = dict_values (filter (\<lambda>(k, w). 0 < w) (weight_score ns))"
  by (auto simp: validate_step_def raise_def Let_def split: sum.splits prod.splits if_splits)


lemma validate_step_voted:
  "votes (validate_step env v) = [(uids, ws)] \<Longrightarrow>
   (\<exists>h. appended (validate_step env v) = Some h)
   \<and> raised (validate_step env v) =
       (case vote env uids ws of
          Inl e \<Rightarrow> if is_Exception e then None else Some e
        | Inr u \<Rightarrow> None)
   \<and> logged (validate_step env v) =
       (case vote env uids ws of
          Inl e \<Rightarrow> if is_Exception e then [e] else []
        | Inr u \<Rightarrow> [])"
  by (auto simp: validate_step_def raise_def Let_def split: sum.splits prod.splits if_splits)

lemma validate_step_empty:
  "score_round env = Inr ([], dd) \<Longrightarrow>
   validate_step env v = \<lparr>state = v, appended = None, votes = [], logged = [], raised = None\<rparr>"
  by (simp add: validate_step_def)

lemma recorded_scores_from_backend:
  assumes "score_miners sim p ms ([], []) = Inr (sd, dd)" and "(u, s) \<in> set sd"
  shows "s \<noteq> 0 \<and> (\<exists>img el. (u, Some img, el) \<in> set ms \<and> img \<noteq> [] \<and> sim img p = Inr s)"
proof -
  from score_miners_entries[OF assms]
  obtain img el where "s \<noteq> 0" "(u, Some img, el) \<in> set ms" "img \<noteq> []"
      "calculate_score sim img p = Inr s"
    by auto
  then show ?thesis using calculate_score_Inr[of sim img p s] by blast
qed

lemma backend_scores_recorded:
  assumes "score_miners sim p ms ([], []) = Inr (sd, dd)" and "distinct (map fst ms)"
    and "(u, Some img, el) \<in> set ms" and "img \<noteq> []" and "sim img p = Inr s" and "s \<noteq> 0"
  shows "(u, s) \<in> set sd \<and> (u, el) \<in> set dd"
proof -
  have c: "calculate_score sim img p = Inr s" using assms(5) by (simp add: calculate_score_def)
  show ?thesis by (rule score_miners_records[OF assms(1,2,3,4) c assms(6)])
qed

lemma recorded_scores_positive:
  assumes "score_miners sim p ms ([], []) = Inr (sd, dd)"
    and "\<forall>img s. sim img p = Inr s \<longrightarrow> 0 \<le> s"
    and "s \<in> set (dict_values sd)"
  shows "0 < s"
proof -
  obtain u where "(u, s) \<in> set sd" using assms(3) by (auto simp: dict_values_def)
  from recorded_scores_from_backend[OF assms(1) this]
  obtain img where "s \<noteq> 0" "sim img p = Inr s" by blast
  then show ?thesis using assms(2) by force
qed


lemma appended_raw_scores:
  assumes "score_round env = Inr (sd, dd)" and "appended (validate_step env v) = Some h"
    and "row \<in> set (data h)"
  shows "fst (snd row) \<in> set (dict_values sd)"
proof -
  from validate_step_appendedD[OF assms(2)] assms(1)
  obtain ns where "data h = zip5 (dict_keys (weight_score ns)) (dict_values sd)
      (dict_values dd) (dict_values ns) (dict_values (weight_score ns))"
    by auto
  then show ?thesis using assms(3) zip5_second[of row] by simp
qed


text \<open>
  C5.  The claim that every score is at least 0 fails: the API backend returns
  whatever number the endpoint replies, \<open>calculate_score\<close> passes it on, and the
  round records it as a raw score, since only a score equal to 0 is skipped.
\<close>

theorem score_negative_counterexample:
  "calculate_score (api_get_similarity reply_negative) ''png'' ''a cat'' = Inr (- 1)
   \<and> \<not> 0 \<le> projr (calculate_score (api_get_similarity reply_negative) ''png'' ''a cat'')
   \<and> score_miners (api_get_similarity reply_negative) ''a cat''
        [(7, Some ''png'', 2)] ([], []) = Inr ([(7, - 1)], [(7, 2)])"
  by (simp add: calculate_score_def api_get_similarity_def)

text \<open>
  C5, as amended.  \<open>calculate_score\<close> returns the backend's value unchanged when the
  backend returns, 0.0 when the backend raises an instance of \<^verbatim>\<open>Exception\<close>, and
  lets any other exception through.  The raw scores that the scoring loop records are
  values the backend returned, none of them 0, and for miners with distinct uids every
  non-zero value returned for a non-empty answer is recorded with its elapsed time; so
  every recorded raw score is positive whenever the backend returns no negative
  value.  The \<^verbatim>\<open>score_dict\<close> of a round is what that loop records for the
  registry's uids and the gathered answers, and the raw scores in the record the
  round appends are among its values.
\<close>

theorem scores_follow_backend:
  "(\<forall>s. sim img p = Inr s \<longrightarrow> calculate_score sim img p = Inr s)
   \<and> (\<forall>e. sim img p = Inl e \<longrightarrow>
          calculate_score sim img p = (if is_Exception e then Inr 0 else Inl e))
   \<and> (score_miners sim p ms ([], []) = Inr (sd, dd) \<longrightarrow>
        (\<forall>(u, s)\<in>set sd. s \<noteq> 0
            \<and> (\<exists>img el. (u, Some img, el) \<in> set ms \<and> img \<noteq> [] \<and> sim img p = Inr s))
      \<and> (distinct (map fst ms) \<longrightarrow>
           (\<forall>(u, a, el)\<in>set ms. \<forall>img s.
               a = Some img \<and> img \<noteq> [] \<and> sim img p = Inr s \<and> s \<noteq> 0
               \<longrightarrow> (u, s) \<in> set sd \<and> (u, el) \<in> set dd))
      \<and> ((\<forall>img s. sim img p = Inr s \<longrightarrow> 0 \<le> s) \<longrightarrow> (\<forall>s\<in>set (dict_values sd). 0 < s)))
   \<and> (get_queryable_miners env = Inr mi \<and> get_validate_input env = Inr inp
        \<and> gather env = Inr answers \<longrightarrow>
        score_round env
          = score_miners (get_similarity env) (prompt inp) (zip (dict_keys mi) answers) ([], []))
   \<and> (score_round env = Inr (sd', dd') \<and> appended (validate_step env v) = Some h \<longrightarrow>
        (\<forall>row\<in>set (data h). fst (snd row) \<in> set (dict_values sd')))"
proof (intro conjI)
  show "get_queryable_miners env = Inr mi \<and> get_validate_input env = Inr inp
        \<and> gather env = Inr answers \<longrightarrow>
        score_round env
          = score_miners (get_similarity env) (prompt inp) (zip (dict_keys mi) answers) ([], [])"
    by (simp add: score_round_def)
  show "\<forall>s. sim img p = Inr s \<longrightarrow> calculate_score sim img p = Inr s"
    by (simp add: calculate_score_def)
  show "\<forall>e. sim img p = Inl e \<longrightarrow>
          calculate_score sim img p = (if is_Exception e then Inr 0 else Inl e)"
    by (simp add: calculate_score_def)
  show "score_miners sim p ms ([], []) = Inr (sd, dd) \<longrightarrow>
        (\<forall>(u, s)\<in>set sd. s \<noteq> 0
            \<and> (\<exists>img el. (u, Some img, el) \<in> set ms \<and> img \<noteq> [] \<and> sim img p = Inr s))
      \<and> (distinct (map fst ms) \<longrightarrow>
           (\<forall>(u, a, el)\<in>set ms. \<forall>img s.
               a = Some img \<and> img \<noteq> [] \<and> sim img p = Inr s \<and> s \<noteq> 0
               \<longrightarrow> (u, s) \<in> set sd \<and> (u, el) \<in> set dd))
      \<and> ((\<forall>img s. sim img p = Inr s \<longrightarrow> 0 \<le> s) \<longrightarrow> (\<forall>s\<in>set (dict_values sd). 0 < s))"
  proof (intro impI conjI)
    assume r: "score_miners sim p ms ([], []) = Inr (sd, dd)"
    show "\<forall>(u, s)\<in>set sd. s \<noteq> 0
            \<and> (\<exists>img el. (u, Some img, el) \<in> set ms \<and> img \<noteq> [] \<and> sim img p = Inr s)"
    proof (intro ballI, simp only: split_paired_all prod.case)
      fix u s assume "(u, s) \<in> set sd"
      then show "s \<noteq> 0
          \<and> (\<exists>img el. (u, Some img, el) \<in> set ms \<and> img \<noteq> [] \<and> sim img p = Inr s)"
        by (rule recorded_scores_from_backend[OF r])
    qed
    show "\<forall>(u, a, el)\<in>set ms. \<forall>img s.
               a = Some img \<and> img \<noteq> [] \<and> sim img p = Inr s \<and> s \<noteq> 0
               \<longrightarrow> (u, s) \<in> set sd \<and> (u, el) \<in> set dd"
      if d: "distinct (map fst ms)"
    proof (intro ballI, simp only: split_paired_all prod.case, intro allI impI)
      fix u a el img s
      assume m: "(u, a, el) \<in> set ms"
        and h: "a = Some img \<and> img \<noteq> [] \<and> sim img p = Inr s \<and> s \<noteq> 0"
      have m': "(u, Some img, el) \<in> set ms" using m h by simp
      have h1: "img \<noteq> []" and h2: "sim img p = Inr s" and h3: "s \<noteq> 0"
        using h by blast+
      show "(u, s) \<in> set sd \<and> (u, el) \<in> set dd"
        by (rule backend_scores_recorded[OF r d m' h1 h2 h3])
    qed
    show "\<forall>s\<in>set (dict_values sd). 0 < s"
      if "\<forall>img s. sim img p = Inr s \<longrightarrow> 0 \<le> s"
      using recorded_scores_positive[OF r that] by blast
  qed
  show "score_round env = Inr (sd', dd') \<and> appended (validate_step env v) = Some h \<longrightarrow>
        (\<forall>row\<in>set (data h). fst (snd row) \<in> set (dict_values sd'))"
    using appended_raw_scores[of env sd' dd' v h] by blast
qed

theorem scores_follow_backend_witness:
  "calculate_score (api_get_similarity reply_similarity) ''png'' ''a cat'' = Inr (3 / 4)
   \<and> calculate_score (api_get_similarity reply_unavailable) ''png'' ''a cat'' = Inr 0
   \<and> score_miners (api_get_similarity reply_similarity) ''a cat''
        [(7, Some ''png'', 2)] ([], []) = Inr ([(7, 3 / 4)], [(7, 2)])
   \<and> list_all (\<lambda>s. 0 < s) (dict_values [(7, 3 / 4 :: real)])
   \<and> score_round demo_round = Inr ([(1, 80), (2, 40)], [(1, 1), (2, 1 / 2)])
   \<and> map (\<lambda>row. fst (snd row)) (data (the (appended (validate_step demo_round demo_validator))))
       = [80, 40]"
proof -
  let ?up = "api_get_similarity reply_similarity"
  let ?down = "api_get_similarity reply_unavailable"
  have u: "?up ''png'' ''a cat'' = Inr (3 / 4)"
    by (simp add: api_get_similarity_def)
  have d: "?down ''png'' ''a cat'' = Inl (Exception ''503 Service Unavailable'')"
    by (simp add: api_get_similarity_def)
  have nn: "\<forall>img s. ?up img ''a cat'' = Inr s \<longrightarrow> 0 \<le> s"
    by (simp add: api_get_similarity_def)
  have m: "score_miners ?up ''a cat'' [(7, Some ''png'', 2)] ([], []) = Inr ([(7, 3 / 4)], [(7, 2)])"
    by (simp add: calculate_score_def api_get_similarity_def)
  have r: "score_round demo_round = Inr ([(1, 80), (2, 40)], [(1, 1), (2, 1 / 2)])"
    by code_simp
  have h: "map (\<lambda>row. fst (snd row)) (data (the (appended (validate_step demo_round demo_validator))))
       = [80, 40]"
    by code_simp
  note T1 = scores_follow_backend[of ?up "''png''" "''a cat''" "[(7, Some ''png'', 2)]"
      "[(7, 3 / 4)]" "[(7, 2)]"]
  note T2 = scores_follow_backend[of ?down "''png''" "''a cat''"]
  have c1: "calculate_score ?up ''png'' ''a cat'' = Inr (3 / 4)"
    using T1[THEN conjunct1] u by blast
  have "calculate_score ?down ''png'' ''a cat''
      = (if is_Exception (Exception ''503 Service Unavailable'') then Inr 0
         else Inl (Exception ''503 Service Unavailable''))"
    using T2[THEN conjunct2, THEN conjunct1] d by blast
  then have c2: "calculate_score ?down ''png'' ''a cat'' = Inr 0"
    by simp
  have "\<forall>s\<in>set (dict_values [(7, 3 / 4 :: real)]). 0 < s"
    using T1[THEN conjunct2, THEN conjunct2, THEN conjunct1] m nn by blast
  then have c3: "list_all (\<lambda>s. 0 < s) (dict_values [(7, 3 / 4 :: real)])"
    by (simp only: list_all_iff)
  from c1 c2 m c3 r h show ?thesis by blast
qed

subsection \<open>Weights\<close>

lemma weight_score_keys: "dict_keys (weight_score ns) = dict_keys ns"
  by (simp add: weight_score_def dict_keys_def Let_def split_def comp_def)

lemma sum_list_filter_le:
  fixes xs :: "real list"
  shows "\<forall>x\<in>set xs. 0 \<le> x \<Longrightarrow> sum_list (filter P xs) \<le> sum_list xs"
  by (induction xs) auto

lemma member_le_sum_list_real:
  fixes xs :: "real list"
  shows "\<forall>x\<in>set xs. 0 \<le> x \<Longrightarrow> x \<in> set xs \<Longrightarrow> x \<le> sum_list xs"
proof (induction xs)
  case Nil
  then show ?case by simp
next
  case (Cons y ys)
  have "0 \<le> sum_list ys" using Cons.prems(1) by (simp add: sum_list_nonneg)
  then show ?case using Cons by auto
qed

lemma sum_list_map_divide:
  fixes xs :: "real list"
  shows "sum_list (map (\<lambda>s. s / t) xs) = sum_list xs / t"
  by (induction xs) (simp_all add: add_divide_distrib)

lemma weight_score_values:
  "dict_values (weight_score ns) =
     map (\<lambda>s. if sum_list (dict_values ns) = 0 then 0 else s / sum_list (dict_values ns))
       (dict_values ns)"
  by (simp add: weight_score_def dict_values_def Let_def split_def comp_def)

lemma weight_score_bounds:
  assumes "\<forall>s\<in>set (dict_values ns). 0 \<le> s"
  shows "(\<forall>w\<in>set (dict_values (weight_score ns)). 0 \<le> w \<and> w \<le> 1)
       \<and> sum_list (dict_values (weight_score ns)) \<le> 1"
proof (cases "sum_list (dict_values ns) = 0")
  case True
  then have "dict_values (weight_score ns) = map (\<lambda>s. 0) (dict_values ns)"
    by (simp add: weight_score_values)
  then show ?thesis by simp
next
  case False
  let ?t = "sum_list (dict_values ns)"
  have t: "0 < ?t" using assms False by (simp add: sum_list_nonneg order_less_le)
  have v: "dict_values (weight_score ns) = map (\<lambda>s. s / ?t) (dict_values ns)"
    using False by (simp add: weight_score_values)
  have "sum_list (map (\<lambda>s. s / ?t) (dict_values ns)) = ?t / ?t"
    by (rule sum_list_map_divide)
  then have s: "sum_list (dict_values (weight_score ns)) = 1" using v t by simp
  have "0 \<le> s / ?t \<and> s / ?t \<le> 1" if "s \<in> set (dict_values ns)" for s
    using that assms t member_le_sum_list_real[of "dict_values ns" s] by simp
  then show ?thesis using v s by auto
qed

lemma dict_values_filter:
  "dict_values (filter (\<lambda>(k, w). P w) d) = filter P (dict_values d)"
  by (induction d) (auto simp: dict_values_def)

lemma dict_keys_filter: "set (dict_keys (filter P d)) \<subseteq> set (dict_keys d)"
  by (auto simp: dict_keys_def)

text \<open>
  C1.  Every call of \<^verbatim>\<open>vote\<close> that a round makes carries as many weights as uids,
  each weight is greater than 0 and at most 1, and the weights sum to at most 1.
  The weights are those of \<open>weight_score\<close> with the entries that are not positive
  dropped; the normalized scores of the round are assumed non-negative, as the
  specification requires of the normalizer.
\<close>

theorem emitted_weights_bounded:
  assumes "(uids, weights) \<in> set (votes (validate_step env v))"
    and "score_round env = Inr (sd, dd)"
    and "normalized_nonneg (normalize_score env sd dd)"
  shows "length uids = length weights
       \<and> (\<forall>w\<in>set weights. 0 < w \<and> w \<le> 1)
       \<and> sum_list weights \<le> 1"
proof -
  obtain ns where ns: "normalize_score env sd dd = Inr ns"
      and u: "uids = dict_keys (filter (\<lambda>(k, w). 0 < w) (weight_score ns))"
      and w: "weights = dict_values (filter (\<lambda>(k, w). 0 < w) (weight_score ns))"
    using validate_step_votesD[OF assms(1)] assms(2) by auto
  have nn: "\<forall>s\<in>set (dict_values ns). 0 \<le> s"
    using assms(3) ns by (simp add: normalized_nonneg_def list_all_iff)
  have w': "weights = filter (\<lambda>w. 0 < w) (dict_values (weight_score ns))"
    unfolding w by (rule dict_values_filter)
  have b: "(\<forall>w\<in>set (dict_values (weight_score ns)). 0 \<le> w \<and> w \<le> 1)
       \<and> sum_list (dict_values (weight_score ns)) \<le> 1"
    using nn by (rule weight_score_bounds)
  have "sum_list weights \<le> sum_list (dict_values (weight_score ns))"
    unfolding w' using b by (intro sum_list_filter_le) simp
  moreover have "\<forall>w\<in>set weights. 0 < w \<and> w \<le> 1" using b w' by simp
  moreover have "length uids = length weights" by (simp add: u w dict_keys_def dict_values_def)
  ultimately show ?thesis using b by simp
qed

theorem emitted_weights_bounded_witness:
  "votes (validate_step demo_round demo_validator) = [([1, 2], [2 / 3, 1 / 3])]
   \<and> score_round demo_round = Inr ([(1, 80), (2, 40)], [(1, 1), (2, 1 / 2)])
   \<and> normalized_nonneg (normalize_score demo_round [(1, 80), (2, 40)] [(1, 1), (2, 1 / 2)])
   \<and> length [1, 2 :: uid] = length [2 / 3, 1 / 3 :: real]
   \<and> sum_list [2 / 3, 1 / 3 :: real] \<le> 1"
proof -
  have a: "votes (validate_step demo_round demo_validator) = [([1, 2], [2 / 3, 1 / 3])]"
    by code_simp
  have b: "score_round demo_round = Inr ([(1, 80), (2, 40)], [(1, 1), (2, 1 / 2)])"
    by code_simp
  have c: "normalized_nonneg (normalize_score demo_round [(1, 80), (2, 40)] [(1, 1), (2, 1 / 2)])"
    by code_simp
  have m: "([1, 2], [2 / 3, 1 / 3]) \<in> set (votes (validate_step demo_round demo_validator))"
    using a by simp
  from emitted_weights_bounded[OF m b c] a b c show ?thesis by blast
qed

lemma round_uids_scored:
  assumes "score_round env = Inr (sd, dd)"
    and "normalized_keys sd (normalize_score env sd dd)"
  shows "(\<forall>h. appended (validate_step env v) = Some h \<longrightarrow>
            (\<forall>row\<in>set (data h). fst row \<in> set (dict_keys sd)))
       \<and> (\<forall>(uids, weights)\<in>set (votes (validate_step env v)). set uids \<subseteq> set (dict_keys sd))"
proof -
  have k: "set (dict_keys (weight_score ns)) \<subseteq> set (dict_keys sd)"
    if "normalize_score env sd dd = Inr ns" for ns
    using assms(2) that by (auto simp: normalized_keys_def list_all_iff weight_score_keys)
  have a: "fst row \<in> set (dict_keys sd)"
    if "appended (validate_step env v) = Some h" "row \<in> set (data h)" for h row
  proof -
    note prem = that
    obtain ns where ns: "normalize_score env sd dd = Inr ns"
      and h: "data h = zip5 (dict_keys (weight_score ns)) (dict_values sd) (dict_values dd)
                     (dict_values ns) (dict_values (weight_score ns))"
      using validate_step_appendedD[OF prem(1)] assms(1) by auto
    show ?thesis using prem(2) k[OF ns] zip5_keys[of row] unfolding h by blast
  qed
  have b: "set uids \<subseteq> set (dict_keys sd)"
    if "(uids, ws) \<in> set (votes (validate_step env v))" for uids ws
  proof -
    note prem = that
    obtain ns where ns: "normalize_score env sd dd = Inr ns"
      and u: "uids = dict_keys (filter (\<lambda>(k, w). 0 < w) (weight_score ns))"
      using validate_step_votesD[OF prem] assms(1) by auto
    show ?thesis using k[OF ns] dict_keys_filter[of "\<lambda>(k, w). 0 < w" "weight_score ns"]
      unfolding u by blast
  qed
  from a b show ?thesis by blast
qed

text \<open>
  C2.  Every uid in the record that a round appends to the history, and every uid
  that it submits to \<^verbatim>\<open>vote\<close>, is a key of the round's \<^verbatim>\<open>score_dict\<close>, given
  that the normalizer returns a map over uids of its input.
\<close>

theorem weights_only_for_scored:
  assumes "score_round env = Inr (sd, dd)"
    and "normalized_keys sd (normalize_score env sd dd)"
  shows "(\<forall>h. appended (validate_step env v) = Some h \<longrightarrow>
            (\<forall>row\<in>set (data h). fst row \<in> set (dict_keys sd)))
       \<and> (\<forall>(uids, weights)\<in>set (votes (validate_step env v)). set uids \<subseteq> set (dict_keys sd))"
  using assms by (rule round_uids_scored)

theorem weights_only_for_scored_witness:
  "score_round demo_round = Inr ([(1, 80), (2, 40)], [(1, 1), (2, 1 / 2)])
   \<and> normalized_keys [(1, 80), (2, 40)]
        (normalize_score demo_round [(1, 80), (2, 40)] [(1, 1), (2, 1 / 2)])
   \<and> votes (validate_step demo_round demo_validator) = [([1, 2], [2 / 3, 1 / 3])]
   \<and> set [1, 2] \<subseteq> set (dict_keys [(1, 80 :: real), (2, 40)])"
proof -
  have a: "score_round demo_round = Inr ([(1, 80), (2, 40)], [(1, 1), (2, 1 / 2)])"
    by code_simp
  have b: "normalized_keys [(1, 80), (2, 40)]
        (normalize_score demo_round [(1, 80), (2, 40)] [(1, 1), (2, 1 / 2)])"
    by code_simp
  have c: "votes (validate_step demo_round demo_validator) = [([1, 2], [2 / 3, 1 / 3])]"
    by code_simp
  have "set [1, 2] \<subseteq> set (dict_keys [(1, 80 :: real), (2, 40)])"
    using weights_only_for_scored[OF a b, of demo_validator, THEN conjunct2] unfolding c by simp
  with a b c show ?thesis by blast
qed

text \<open>
  C4.  A round whose \<^verbatim>\<open>score_dict\<close> comes out empty returns without raising,
  calls \<^verbatim>\<open>vote\<close> not at all, appends no record and leaves the validator as it was.
\<close>

theorem empty_round_no_vote:
  assumes "score_round env = Inr ([], dd)"
  shows "raised (validate_step env v) = None
       \<and> votes (validate_step env v) = []
       \<and> appended (validate_step env v) = None
       \<and> state (validate_step env v) = v"
  using validate_step_empty[OF assms, of v] by simp

theorem empty_round_no_vote_witness:
  "score_round silent_round = Inr ([], [])
   \<and> raised (validate_step silent_round demo_validator) = None
   \<and> votes (validate_step silent_round demo_validator) = []
   \<and> appended (validate_step silent_round demo_validator) = None
   \<and> state (validate_step silent_round demo_validator) = demo_validator"
proof -
  have a: "score_round silent_round = Inr ([], [])"
    by code_simp
  from empty_round_no_vote[OF a, of demo_validator] a show ?thesis by blast
qed

subsection \<open>Events of a pass, and the loop\<close>

lemma slept_Voted_comp: "sum_list (map (slept \<circ> (\<lambda>(us, ws). Voted us ws)) xs) = 0"
  by (induction xs) (simp_all add: slept_def split: prod.splits)

lemma slept_simps:
  "slept RunValidateStep = 0" "slept (Recorded h) = 0" "slept (Voted us ws) = 0"
  "slept (Slept t) = t" "slept (TracebackPrinted e) = 0"
  by (simp_all add: slept_def)

lemma raising_round_no_sleep:
  "raised (validate_step (round ie) v) = Some e \<Longrightarrow>
   sum_list (map slept (events (loop_iteration st ie v))) = 0"
  by (simp add: loop_iteration_def Let_def slept_Voted_comp slept_simps split: option.splits)

lemma loop_iteration_no_traceback:
  "raised (validate_step (round ie) v) = None \<Longrightarrow>
   list_all (\<lambda>ev. \<not> is_traceback ev) (events (loop_iteration st ie v))"
  by (auto simp: loop_iteration_def Let_def is_traceback_def list_all_iff
        split: option.splits)


lemma validation_loop_go:
  "propagated (loop_iteration st (envs i) v) = None \<Longrightarrow>
   validation_loop st envs i v =
     validation_loop st envs (Suc i) (state (validate_step (round (envs i)) v))"
  by (subst validation_loop.simps) (simp add: Let_def loop_iteration_state)

lemma validation_loop_stop:
  "propagated (loop_iteration st (envs i) v) = Some e \<Longrightarrow>
   validation_loop st envs i v = Some (state (validate_step (round (envs i)) v), e)"
  by (subst validation_loop.simps) (simp add: Let_def loop_iteration_state)

lemma run_loop_ends_loop:
  "propagated (run_loop n st envs i v) = Some e \<Longrightarrow>
   validation_loop st envs i v = Some (after (run_loop n st envs i v), e)"
proof (induction n arbitrary: i v)
  case 0
  then show ?case by simp
next
  case (Suc n)
  let ?r = "loop_iteration st (envs i) v"
  let ?v' = "state (validate_step (round (envs i)) v)"
  show ?case
  proof (cases "propagated ?r")
    case None
    have "propagated (run_loop n st envs (Suc i) ?v') = Some e"
      using Suc.prems unfolding run_loop_Suc_go[where envs = envs and i = i, OF None] by simp
    from Suc.IH[OF this] show ?thesis
      unfolding run_loop_Suc_go[where envs = envs and i = i, OF None]
        validation_loop_go[where envs = envs and i = i, OF None]
      by simp
  next
    case (Some x)
    then have "x = e"
      using Suc.prems unfolding run_loop_Suc_stop[where envs = envs and i = i, OF Some] by simp
    then show ?thesis
      using Some
      unfolding run_loop_Suc_stop[where envs = envs and i = i, OF Some]
        validation_loop_stop[where envs = envs and i = i, OF Some]
      by (simp add: loop_iteration_state)
  qed
qed

lemma loop_ends_run:
  assumes "validation_loop st envs i v = Some y"
  shows "\<exists>n. propagated (run_loop n st envs i v) = Some (snd y)
     \<and> after (run_loop n st envs i v) = fst y"
proof (rule validation_loop.raw_induct[where
      P = "\<lambda>st envs i v y. \<exists>n. propagated (run_loop n st envs i v) = Some (snd y)
             \<and> after (run_loop n st envs i v) = fst y"])
  show "validation_loop st envs i v = Some y" by (rule assms)
next
  fix loop :: "ValidatorSettings \<Rightarrow> (nat \<Rightarrow> iteration_env) \<Rightarrow> nat \<Rightarrow> Validator
      \<Rightarrow> (Validator \<times> exn) option"
  fix st envs i v y
  assume IH: "\<And>st envs i v y. loop st envs i v = Some y \<Longrightarrow>
      \<exists>n. propagated (run_loop n st envs i v) = Some (snd y)
        \<and> after (run_loop n st envs i v) = fst y"
  assume step: "(let r = loop_iteration st (envs i) v
                 in case propagated r of
                      None \<Rightarrow> loop st envs (Suc i) (after r)
                    | Some e \<Rightarrow> Some (after r, e)) = Some y"
  let ?r = "loop_iteration st (envs i) v"
  show "\<exists>n. propagated (run_loop n st envs i v) = Some (snd y)
     \<and> after (run_loop n st envs i v) = fst y"
  proof (cases "propagated ?r")
    case None
    then have "loop st envs (Suc i) (after ?r) = Some y"
      using step by (simp add: Let_def)
    from IH[OF this] obtain n where
      n: "propagated (run_loop n st envs (Suc i) (after ?r)) = Some (snd y)"
         "after (run_loop n st envs (Suc i) (after ?r)) = fst y"
      by blast
    have "propagated (run_loop (Suc n) st envs i v) = Some (snd y)
        \<and> after (run_loop (Suc n) st envs i v) = fst y"
      using n None by (simp add: Let_def)
    then show ?thesis by blast
  next
    case (Some e)
    then have y: "y = (after ?r, e)" using step by (simp add: Let_def)
    have "propagated (run_loop (Suc 0) st envs i v) = Some (snd y)
        \<and> after (run_loop (Suc 0) st envs i v) = fst y"
      using Some y by (simp add: Let_def)
    then show ?thesis by blast
  qed
qed

lemma run_loop_propagated:
  "propagated (run_loop n st envs i v) = Some e \<Longrightarrow>
   \<not> is_Exception e \<and> (\<exists>j w. raised (validate_step (round (envs j)) w) = Some e)"
proof (induction n arbitrary: i v)
  case 0
  then show ?case by simp
next
  case (Suc n)
  let ?r = "loop_iteration st (envs i) v"
  let ?v' = "state (validate_step (round (envs i)) v)"
  show ?case
  proof (cases "propagated ?r")
    case None
    have "propagated (run_loop n st envs (Suc i) ?v') = Some e"
      using Suc.prems unfolding run_loop_Suc_go[where envs = envs and i = i, OF None] by simp
    from Suc.IH[OF this] show ?thesis .
  next
    case (Some x)
    then have "x = e"
      using Suc.prems unfolding run_loop_Suc_stop[where envs = envs and i = i, OF Some] by simp
    then have "propagated ?r = Some e" using Some by simp
    then have "raised (validate_step (round (envs i)) v) = Some e \<and> \<not> is_Exception e"
      unfolding loop_iteration_propagated by (auto split: option.splits if_splits)
    then show ?thesis by blast
  qed
qed

text \<open>
  C7.  After a round that returns, with duration \<open>d\<close> and target interval \<open>T\<close>,
  the pass sleeps \<open>max 0 (T - d)\<close>: when \<open>d < T\<close> its last event is a sleep of
  \<open>T - d\<close>, and when \<open>T \<le> d\<close> it does not sleep at all; either way the pass ran
  one round, so a late pass is followed by no extra round.  (A round that raises is
  followed by no sleep.)
\<close>

theorem sleep_after_round:
  assumes "raised (validate_step (round ie) v) = None"
    and "d = end_time ie - start_time ie"
    and "T = real_of_int (iteration_interval st)"
    and "evs = events (loop_iteration st ie v)"
  shows "sum_list (map slept evs) = max 0 (T - d)
       \<and> (d < T \<longrightarrow> last evs = Slept (T - d))
       \<and> (T \<le> d \<longrightarrow> (\<forall>t. Slept t \<notin> set evs))
       \<and> rounds_run evs = 1"
proof -
  have s: "sum_list (map slept evs) = max 0 (T - d)"
    using assms
    by (simp add: loop_iteration_def Let_def slept_Voted_comp slept_simps split: option.splits)
  have l: "d < T \<longrightarrow> last evs = Slept (T - d)"
    using assms by (simp add: loop_iteration_def Let_def)
  have n: "T \<le> d \<longrightarrow> (\<forall>t. Slept t \<notin> set evs)"
    using assms by (auto simp: loop_iteration_def Let_def split: option.splits)
  have r: "rounds_run evs = 1"
    using assms(4) by (simp add: loop_iteration_rounds_run)
  from s l n r show ?thesis by blast
qed

theorem sleep_after_round_witness:
  "raised (validate_step (round (demo_envs 0)) demo_validator) = None
   \<and> sum_list (map slept (events (loop_iteration default_settings (demo_envs 0) demo_validator))) = 15
   \<and> last (events (loop_iteration default_settings (demo_envs 0) demo_validator)) = Slept 15
   \<and> raised (validate_step (round demo_slow) demo_validator) = None
   \<and> sum_list (map slept (events (loop_iteration default_settings demo_slow demo_validator))) = 0"
proof -
  have a: "raised (validate_step (round (demo_envs 0)) demo_validator) = None"
    by code_simp
  have b: "raised (validate_step (round demo_slow) demo_validator) = None"
    by code_simp
  note A = sleep_after_round[OF a refl refl refl, of default_settings]
  note B = sleep_after_round[OF b refl refl refl, of default_settings]
  have "sum_list (map slept (events (loop_iteration default_settings (demo_envs 0) demo_validator))) = 15"
    using A[THEN conjunct1] by (simp add: demo_envs_def default_settings_def)
  moreover have "last (events (loop_iteration default_settings (demo_envs 0) demo_validator)) = Slept 15"
    using A[THEN conjunct2, THEN conjunct1] by (simp add: demo_envs_def default_settings_def)
  moreover have "sum_list (map slept (events (loop_iteration default_settings demo_slow demo_validator))) = 0"
    using B[THEN conjunct1] by (simp add: demo_slow_def default_settings_def)
  ultimately show ?thesis using a b by blast
qed

text \<open>
  C8.  The claim that the loop survives every exception of a round fails: the handler
  is \<^verbatim>\<open>except Exception\<close>, and a round that is cancelled raises
  \<^verbatim>\<open>asyncio.CancelledError\<close>, which is not an \<^verbatim>\<open>Exception\<close>; the loop ends with it.
\<close>

theorem loop_ends_on_cancel_counterexample:
  "raised (validate_step (round (cancelled_envs 0)) demo_validator) = Some CancelledError
   \<and> validation_loop default_settings cancelled_envs 0 demo_validator
       = Some (demo_validator, CancelledError)"
proof -
  have a: "raised (validate_step (round (cancelled_envs 0)) demo_validator) = Some CancelledError"
    by (simp add: cancelled_envs_def cancelled_round_def demo_round_def validate_step_def
          score_round_def get_validate_input_def raise_def)
  have s: "state (validate_step (round (cancelled_envs 0)) demo_validator) = demo_validator"
    by (simp add: cancelled_envs_def cancelled_round_def demo_round_def validate_step_def
          score_round_def get_validate_input_def raise_def)
  have "propagated (loop_iteration default_settings (cancelled_envs 0) demo_validator)
          = Some CancelledError"
    unfolding loop_iteration_propagated a by simp
  from validation_loop_stop[where envs = cancelled_envs and i = 0, OF this] a s
  show ?thesis by simp
qed

text \<open>
  C8, as amended.  An exception raised inside a round that is an instance of
  \<^verbatim>\<open>Exception\<close> is caught at the end of the pass: the traceback is printed and the
  loop goes on with the next pass.  The loop ends exactly when some pass lets an
  exception through, which is then no instance of \<^verbatim>\<open>Exception\<close> and was raised by a
  round; so when the rounds raise nothing but instances of \<^verbatim>\<open>Exception\<close> the loop
  never ends, and \<open>n\<close> passes run \<open>n\<close> rounds.
\<close>

theorem loop_catches_exceptions:
  "(raised (validate_step (round (envs i)) v) = Some e \<and> is_Exception e \<longrightarrow>
       last (events (loop_iteration st (envs i) v)) = TracebackPrinted e
     \<and> propagated (loop_iteration st (envs i) v) = None
     \<and> validation_loop st envs i v
         = validation_loop st envs (Suc i) (state (validate_step (round (envs i)) v)))
   \<and> (validation_loop st envs i v = Some (v', e') \<longleftrightarrow>
        (\<exists>n. propagated (run_loop n st envs i v) = Some e'
            \<and> after (run_loop n st envs i v) = v'))
   \<and> (validation_loop st envs i v = Some (v', e') \<longrightarrow>
        \<not> is_Exception e' \<and> (\<exists>j w. raised (validate_step (round (envs j)) w) = Some e'))
   \<and> ((\<forall>j w x. raised (validate_step (round (envs j)) w) = Some x \<longrightarrow> is_Exception x) \<longrightarrow>
        validation_loop st envs i v = None
        \<and> propagated (run_loop n st envs i v) = None
        \<and> rounds_run (events (run_loop n st envs i v)) = n)"
proof (intro conjI)
  show "raised (validate_step (round (envs i)) v) = Some e \<and> is_Exception e \<longrightarrow>
       last (events (loop_iteration st (envs i) v)) = TracebackPrinted e
     \<and> propagated (loop_iteration st (envs i) v) = None
     \<and> validation_loop st envs i v
         = validation_loop st envs (Suc i) (state (validate_step (round (envs i)) v))"
  proof (intro impI)
    assume h: "raised (validate_step (round (envs i)) v) = Some e \<and> is_Exception e"
    have p: "propagated (loop_iteration st (envs i) v) = None"
      unfolding loop_iteration_propagated using h by simp
    have l: "last (events (loop_iteration st (envs i) v)) = TracebackPrinted e"
      using h by (simp add: loop_iteration_def Let_def)
    from l p validation_loop_go[where envs = envs and i = i, OF p]
    show "last (events (loop_iteration st (envs i) v)) = TracebackPrinted e
     \<and> propagated (loop_iteration st (envs i) v) = None
     \<and> validation_loop st envs i v
         = validation_loop st envs (Suc i) (state (validate_step (round (envs i)) v))"
      by blast
  qed
  show iff: "validation_loop st envs i v = Some (v', e') \<longleftrightarrow>
        (\<exists>n. propagated (run_loop n st envs i v) = Some e'
            \<and> after (run_loop n st envs i v) = v')"
  proof
    assume "validation_loop st envs i v = Some (v', e')"
    from loop_ends_run[OF this] show "\<exists>n. propagated (run_loop n st envs i v) = Some e'
            \<and> after (run_loop n st envs i v) = v'"
      by simp
  next
    assume "\<exists>n. propagated (run_loop n st envs i v) = Some e'
            \<and> after (run_loop n st envs i v) = v'"
    then obtain n where n: "propagated (run_loop n st envs i v) = Some e'"
        "after (run_loop n st envs i v) = v'"
      by blast
    from run_loop_ends_loop[OF n(1)] n(2) show "validation_loop st envs i v = Some (v', e')"
      by simp
  qed
  show "validation_loop st envs i v = Some (v', e') \<longrightarrow>
        \<not> is_Exception e' \<and> (\<exists>j w. raised (validate_step (round (envs j)) w) = Some e')"
  proof
    assume "validation_loop st envs i v = Some (v', e')"
    from loop_ends_run[OF this] obtain n where "propagated (run_loop n st envs i v) = Some e'"
      by auto
    then show "\<not> is_Exception e' \<and> (\<exists>j w. raised (validate_step (round (envs j)) w) = Some e')"
      by (rule run_loop_propagated)
  qed
  show "(\<forall>j w x. raised (validate_step (round (envs j)) w) = Some x \<longrightarrow> is_Exception x) \<longrightarrow>
        validation_loop st envs i v = None
        \<and> propagated (run_loop n st envs i v) = None
        \<and> rounds_run (events (run_loop n st envs i v)) = n"
  proof
    assume all: "\<forall>j w x. raised (validate_step (round (envs j)) w) = Some x \<longrightarrow> is_Exception x"
    have none: "propagated (run_loop m st envs i v) = None" for m
    proof (cases "propagated (run_loop m st envs i v)")
      case (Some x)
      from run_loop_propagated[OF this] all show ?thesis by blast
    qed simp
    have "validation_loop st envs i v = None"
    proof (cases "validation_loop st envs i v")
      case (Some y)
      from loop_ends_run[OF this] none show ?thesis by simp
    qed simp
    with none[of n] run_loop_rounds_run[OF none[of n]]
    show "validation_loop st envs i v = None
        \<and> propagated (run_loop n st envs i v) = None
        \<and> rounds_run (events (run_loop n st envs i v)) = n"
      by blast
  qed
qed

theorem loop_catches_exceptions_witness:
  "raised (validate_step (round (failing_envs 0)) demo_validator)
     = Some (Exception ''registry unreachable'')
   \<and> is_Exception (Exception ''registry unreachable'')
   \<and> last (events (loop_iteration default_settings (failing_envs 0) demo_validator))
       = TracebackPrinted (Exception ''registry unreachable'')
   \<and> validation_loop default_settings failing_envs 0 demo_validator = None
   \<and> rounds_run (events (run_loop 3 default_settings failing_envs 0 demo_validator)) = 3"
proof -
  have r: "raised (validate_step (round (failing_envs j)) w)
             = Some (Exception ''registry unreachable'')" for j w
    by (simp add: failing_envs_def failing_round_def validate_step_def score_round_def raise_def)
  have all: "\<forall>j w x. raised (validate_step (round (failing_envs j)) w) = Some x
      \<longrightarrow> is_Exception x"
    unfolding r by simp
  note T = loop_catches_exceptions[of failing_envs 0 demo_validator
      "Exception ''registry unreachable''" default_settings _ _ 3]
  have "last (events (loop_iteration default_settings (failing_envs 0) demo_validator))
       = TracebackPrinted (Exception ''registry unreachable'')"
    using T[THEN conjunct1] r[of 0 demo_validator] by simp
  moreover have "validation_loop default_settings failing_envs 0 demo_validator = None
      \<and> rounds_run (events (run_loop 3 default_settings failing_envs 0 demo_validator)) = 3"
    using T[THEN conjunct2, THEN conjunct2, THEN conjunct2] all by blast
  ultimately show ?thesis using r[of 0 demo_validator] by simp
qed



text \<open>
  C9.  When a round submits a vote and \<^verbatim>\<open>vote\<close> raises an \<^verbatim>\<open>Exception\<close>,
  \<^verbatim>\<open>validate_step\<close> logs the error and returns: the record it appended before the
  vote is the newest item of the history, the pass of the loop prints no traceback
  and lets no exception through, and the loop goes on with the next pass from that
  state.
\<close>

theorem vote_failure_contained:
  assumes "votes (validate_step env v) = [(uids, weights)]"
    and "vote env uids weights = Inl e"
    and "is_Exception e"
    and "round (envs i) = env"
  shows "raised (validate_step env v) = None
       \<and> logged (validate_step env v) = [e]
       \<and> (\<exists>h. appended (validate_step env v) = Some h
              \<and> weights_histories (state (validate_step env v))
                  = deque_append (weights_histories v) h
              \<and> (maxlen (weights_histories v) = Some 10 \<longrightarrow>
                   last (items (weights_histories (state (validate_step env v)))) = h))
       \<and> list_all (\<lambda>ev. \<not> is_traceback ev) (events (loop_iteration st (envs i) v))
       \<and> propagated (loop_iteration st (envs i) v) = None
       \<and> validation_loop st envs i v
           = validation_loop st envs (Suc i) (state (validate_step env v))
       \<and> run_loop (Suc n) st envs i v =
           (run_loop n st envs (Suc i) (state (validate_step env v)))
             \<lparr>events := events (loop_iteration st (envs i) v)
                @ events (run_loop n st envs (Suc i) (state (validate_step env v)))\<rparr>"
proof -
  note V = validate_step_voted[OF assms(1)]
  have v1: "raised (validate_step env v) = None"
    using V[THEN conjunct2, THEN conjunct1] assms(2,3) by simp
  have v2: "logged (validate_step env v) = [e]"
    using V[THEN conjunct2, THEN conjunct2] assms(2,3) by simp
  obtain h where h: "appended (validate_step env v) = Some h"
    using V[THEN conjunct1] by blast
  have st: "weights_histories (state (validate_step env v)) = deque_append (weights_histories v) h"
    using validate_step_history[of env v] h by simp
  have l: "last (items (weights_histories (state (validate_step env v)))) = h"
    if "maxlen (weights_histories v) = Some 10"
    unfolding st using that by (simp add: deque_append_last eval_nat_numeral)
  have t: "list_all (\<lambda>ev. \<not> is_traceback ev) (events (loop_iteration st (envs i) v))"
    using v1 assms(4) by (simp add: loop_iteration_no_traceback)
  have p: "propagated (loop_iteration st (envs i) v) = None"
    unfolding loop_iteration_propagated using v1 assms(4) by simp
  have g: "validation_loop st envs i v
           = validation_loop st envs (Suc i) (state (validate_step env v))"
    using validation_loop_go[where envs = envs and i = i, OF p] assms(4) by simp
  have n: "run_loop (Suc n) st envs i v =
           (run_loop n st envs (Suc i) (state (validate_step env v)))
             \<lparr>events := events (loop_iteration st (envs i) v)
                @ events (run_loop n st envs (Suc i) (state (validate_step env v)))\<rparr>"
    using run_loop_Suc_go[where envs = envs and i = i, OF p] assms(4) by simp
  from v1 v2 h st l t p g n show ?thesis by blast
qed

theorem vote_failure_contained_witness:
  "votes (validate_step ledger_down_round demo_validator) = [([1, 2], [2 / 3, 1 / 3])]
   \<and> vote ledger_down_round [1, 2] [2 / 3, 1 / 3] = Inl (Exception ''ledger unreachable'')
   \<and> is_Exception (Exception ''ledger unreachable'')
   \<and> raised (validate_step ledger_down_round demo_validator) = None
   \<and> logged (validate_step ledger_down_round demo_validator) = [Exception ''ledger unreachable'']
   \<and> list_all (\<lambda>ev. \<not> is_traceback ev)
        (events (loop_iteration default_settings (ledger_down_envs 0) demo_validator))"
proof -
  have a: "votes (validate_step ledger_down_round demo_validator) = [([1, 2], [2 / 3, 1 / 3])]"
    by code_simp
  have b: "vote ledger_down_round [1, 2] [2 / 3, 1 / 3] = Inl (Exception ''ledger unreachable'')"
    by (simp add: ledger_down_round_def demo_round_def)
  have x: "is_Exception (Exception ''ledger unreachable'')"
    by simp
  have c: "round (ledger_down_envs 0) = ledger_down_round"
    by (simp add: ledger_down_envs_def)
  note T = vote_failure_contained[where envs = ledger_down_envs and i = 0
      and st = default_settings, OF a b x c]
  from T[THEN conjunct1] T[THEN conjunct2, THEN conjunct1]
    T[THEN conjunct2, THEN conjunct2, THEN conjunct2, THEN conjunct1] a b x
  show ?thesis by blast
qed

end
